theory Spec2Isabelle
  imports Complex_Main
begin

section \<open>Numbers, time and identifiers\<close>

text \<open>
  The program computes with JavaScript numbers. They are embedded as exact rationals
  (\<^typ>\<open>rat\<close>): comparisons, sums, differences and products are the mathematical ones,
  and neither rounding nor the values NaN and Infinity exist in the model. A division by
  zero, which gives Infinity or NaN in JavaScript, is outside the model: where a theorem
  depends on the value of a quotient, a hypothesis keeps the divisor away from zero.

  An instant (an ISO timestamp, \<^verbatim>\<open>Date.now()\<close>) is the number of milliseconds since the
  epoch, an \<^typ>\<open>int\<close>. Functions that read the clock take the instant as the argument
  \<open>now\<close>; a function that reads the clock several times in one call receives one instant.
\<close>

type_synonym number = rat
type_synonym instant = int

section \<open>payment-tracker.js: the ledger of purchase lots\<close>

datatype status = Active | Partial | Consumed | Sold

text \<open>
  What \<^verbatim>\<open>sellIndividualPayment\<close> writes on a lot: \<^verbatim>\<open>soldDate\<close>, \<^verbatim>\<open>soldPrice\<close>,
  \<^verbatim>\<open>soldValue\<close>, \<^verbatim>\<open>profit\<close>, \<^verbatim>\<open>netProfit\<close>, \<^verbatim>\<open>sellingFees\<close>.
\<close>

record sale =
  soldDate :: instant
  soldPrice :: number
  soldValue :: number
  saleProfit :: number
  saleNetProfit :: number
  saleSellingFees :: number

text \<open>
  A payment object. The field \<^verbatim>\<open>date\<close> (the local rendering of \<^verbatim>\<open>timestamp\<close>) is
  left out. The fields that exist only after a mutation are options.
\<close>

record payment =
  pid :: string
  timestamp :: instant
  gbpAmount :: number
  btcAmount :: number
  btcPrice :: number
  ptype :: string
  status :: status
  consumedDate :: "instant option"
  lastModified :: "instant option"
  sold :: "sale option"

text \<open>
  \<^verbatim>\<open>recordPayment(gbpAmount, btcAmount, btcPrice, type)\<close>: the new lot is appended and
  returned. \<open>newId\<close> is the result of \<^verbatim>\<open>generatePaymentId()\<close> (clock and random digits).
\<close>

definition recordPayment ::
  "instant \<Rightarrow> string \<Rightarrow> number \<Rightarrow> number \<Rightarrow> number \<Rightarrow> string \<Rightarrow> payment list
     \<Rightarrow> payment \<times> payment list" where
  "recordPayment now newId gbp btc price ty payments =
     (let p = \<lparr> pid = newId, timestamp = now, gbpAmount = gbp, btcAmount = btc,
                  btcPrice = price, ptype = ty, status = Active,
                  consumedDate = None, lastModified = None, sold = None \<rparr>
      in (p, payments @ [p]))"

text \<open>One buy as the arguments of a \<^verbatim>\<open>recordPayment\<close> call together with its clock and id.\<close>

record buy =
  buyTime :: instant
  buyId :: string
  buyGbp :: number
  buyBtc :: number
  buyPrice :: number
  buyType :: string

definition recordBuy :: "buy \<Rightarrow> payment list \<Rightarrow> payment list" where
  "recordBuy b payments =
     snd (recordPayment (buyTime b) (buyId b) (buyGbp b) (buyBtc b) (buyPrice b) (buyType b) payments)"

definition recordPayments :: "buy list \<Rightarrow> payment list" where
  "recordPayments bs = fold recordBuy bs []"

subsection \<open>cleanupPaymentsAfterSale\<close>

text \<open>
  The source filters the active payment objects into a new array, sorts that array by
  timestamp and mutates the objects it walks over; the objects are shared with
  \<^verbatim>\<open>this.payments\<close>. The model keeps the sharing: the walk runs over the positions of the
  active lots in \<^verbatim>\<open>this.payments\<close> and updates the ledger at those positions.
  \<^verbatim>\<open>Array.prototype.sort\<close> is stable, as is \<^const>\<open>sort_key\<close>.
\<close>

definition dust :: number where
  "dust = 1 / 100000000"

definition markConsumed :: "instant \<Rightarrow> payment \<Rightarrow> payment" where
  "markConsumed now p = p\<lparr>status := Consumed, consumedDate := Some now\<rparr>"

definition markPartial :: "instant \<Rightarrow> number \<Rightarrow> payment \<Rightarrow> payment" where
  "markPartial now amount p =
     p\<lparr>btcAmount := amount, status := Partial, lastModified := Some now\<rparr>"

definition activePositions :: "payment list \<Rightarrow> nat list" where
  "activePositions payments =
     filter (\<lambda>i. status (payments ! i) = Active) [0..<length payments]"

definition fifoPositions :: "payment list \<Rightarrow> nat list" where
  "fifoPositions payments =
     sort_key (\<lambda>i. timestamp (payments ! i)) (activePositions payments)"

text \<open>\<^verbatim>\<open>remainingPayments.forEach(p => { p.status = 'consumed'; ... })\<close>\<close>

fun consumeRemaining :: "instant \<Rightarrow> nat list \<Rightarrow> payment list \<Rightarrow> payment list" where
  "consumeRemaining now [] payments = payments"
| "consumeRemaining now (j # js) payments =
     consumeRemaining now js (payments[j := markConsumed now (payments ! j)])"

text \<open>
  The \<^verbatim>\<open>for (const payment of activePayments)\<close> loop with its \<^verbatim>\<open>break\<close>. The running total
  after the loop is only printed, so the walk returns the ledger.
\<close>

fun fifoWalk :: "instant \<Rightarrow> number \<Rightarrow> nat list \<Rightarrow> number \<Rightarrow> payment list \<Rightarrow> payment list" where
  "fifoWalk now remainingBtcBalance [] runningTotal payments = payments"
| "fifoWalk now remainingBtcBalance (i # rest) runningTotal payments =
     (if runningTotal + btcAmount (payments ! i) \<le> remainingBtcBalance
      then fifoWalk now remainingBtcBalance rest (runningTotal + btcAmount (payments ! i)) payments
      else
        (let partialAmount = remainingBtcBalance - runningTotal
         in if partialAmount > dust
            then consumeRemaining now rest (payments[i := markPartial now partialAmount (payments ! i)])
            else consumeRemaining now rest (payments[i := markConsumed now (payments ! i)])))"

definition cleanupPaymentsAfterSale :: "instant \<Rightarrow> number \<Rightarrow> payment list \<Rightarrow> payment list" where
  "cleanupPaymentsAfterSale now remainingBtcBalance payments =
     (if remainingBtcBalance \<le> 0
      then map (\<lambda>p. if status p = Active then markConsumed now p else p) payments
      else fifoWalk now remainingBtcBalance (fifoPositions payments) 0 payments)"

subsection \<open>calculatePaymentProfits and getPaymentSummary\<close>








subsection \<open>sellIndividualPayment\<close>

datatype error = PaymentNotFound string | RequestFailed string



section \<open>The unified trader: selling in executeAutomatedTrading\<close>

subsection \<open>The FIFO cost-basis walk\<close>



subsection \<open>The sell branch\<close>








section \<open>profit-tracker.js\<close>

text \<open>
  A JavaScript value used as a condition: \<^verbatim>\<open>null\<close>, \<^verbatim>\<open>undefined\<close> and \<open>0\<close> are falsy.
  \<^verbatim>\<open>a || b\<close> is \<open>a\<close> when \<open>a\<close> is truthy and \<open>b\<close> otherwise.
\<close>

definition truthy :: "number option \<Rightarrow> bool" where
  "truthy v = (case v of None \<Rightarrow> False | Some x \<Rightarrow> x \<noteq> 0)"

definition orElse :: "number option \<Rightarrow> number \<Rightarrow> number" where
  "orElse v d = (case v of None \<Rightarrow> d | Some x \<Rightarrow> if x \<noteq> 0 then x else d)"

datatype milestoneMode = Progressive | Fixed | Static

record alertSettings =
  alertsEnabled :: bool
  profitAlert :: bool
  lossAlert :: bool
  milestoneAlert :: bool

record trackerConfig =
  profitThreshold :: number
  alerts :: alertSettings
  profitMilestones :: "number list"
  milestoneMode :: milestoneMode
  fixedMilestoneIncrement :: number
  staticMilestoneAmount :: number
  initialBalance :: "number option"

text \<open>
  The two kinds of object in \<^verbatim>\<open>profitHistory\<close>, told apart by their \<^verbatim>\<open>type\<close> field. The
  \<^verbatim>\<open>description\<close> of a milestone record is a rendering of \<^verbatim>\<open>milestone\<close> and is left out.
\<close>

record tradeRecord =
  trTimestamp :: instant
  trBtcAmount :: number
  grossValue :: number
  netValue :: number
  fees :: number
  trProfitLoss :: number
  orderId :: string
  runningProfit :: number

record milestoneRecord =
  msTimestamp :: instant
  milestone :: number
  msCurrentProfit :: number

datatype profitRecord = Trade tradeRecord | Milestone milestoneRecord

text \<open>
  A balance snapshot. \<open>portfolioValue\<close> is \<^verbatim>\<open>portfolioValue?.totalValue\<close>, which
  \<^verbatim>\<open>recordBalance\<close> never writes but \<^verbatim>\<open>calculateRunningProfit\<close> reads from loaded records.
\<close>

record balanceRecord =
  brTimestamp :: instant
  source :: string
  gbpBalance :: number
  btcBalance :: number
  brBtcPrice :: number
  btcValueInGbp :: number
  totalBalance :: number
  profitLoss :: number
  portfolioValue :: "number option"

record profitTracker =
  config :: trackerConfig
  profitHistory :: "profitRecord list"
  balanceHistory :: "balanceRecord list"

text \<open>\<^verbatim>\<open>balances.GBP?.available\<close> and \<^verbatim>\<open>balances.BTC?.available\<close>\<close>

record balances =
  gbpAvailable :: "number option"
  btcAvailable :: "number option"

definition calculateRunningProfit :: "profitTracker \<Rightarrow> number" where
  "calculateRunningProfit t =
     (if \<not> truthy (initialBalance (config t)) then 0
      else
        (let latestBalance =
               (if length (balanceHistory t) > 0
                then orElse (portfolioValue (last (balanceHistory t)))
                       (totalBalance (last (balanceHistory t)))
                else the (initialBalance (config t)))
         in latestBalance - the (initialBalance (config t))))"

definition getCurrentProfit :: "profitTracker \<Rightarrow> number" where
  "getCurrentProfit t = calculateRunningProfit t"

definition isMilestone :: "number \<Rightarrow> profitRecord \<Rightarrow> bool" where
  "isMilestone m r = (case r of Trade _ \<Rightarrow> False | Milestone mr \<Rightarrow> milestone mr = m)"

definition hasMilestoneBeenReached :: "number \<Rightarrow> profitTracker \<Rightarrow> bool" where
  "hasMilestoneBeenReached m t = list_ex (isMilestone m) (profitHistory t)"

definition recordMilestone :: "instant \<Rightarrow> number \<Rightarrow> profitTracker \<Rightarrow> profitTracker" where
  "recordMilestone now m t =
     t\<lparr>profitHistory := profitHistory t @
         [Milestone \<lparr> msTimestamp = now, milestone = m, msCurrentProfit = getCurrentProfit t \<rparr>]\<rparr>"

text \<open>One turn of the loop over \<^verbatim>\<open>profitMilestones\<close> in progressive mode.\<close>

definition progressiveStep :: "instant \<Rightarrow> number \<Rightarrow> number \<Rightarrow> profitTracker \<Rightarrow> profitTracker" where
  "progressiveStep now curProfit m t =
     (if curProfit \<ge> m \<and> \<not> hasMilestoneBeenReached m t then recordMilestone now m t else t)"

text \<open>
  \<^verbatim>\<open>lastRecord && lastRecord.runningProfit >= staticAmount\<close>: a milestone record has no
  \<^verbatim>\<open>runningProfit\<close>, and \<^verbatim>\<open>undefined >= staticAmount\<close> is false.
\<close>

definition wasAboveThreshold :: "number \<Rightarrow> profitTracker \<Rightarrow> bool" where
  "wasAboveThreshold staticAmount t =
     (case profitHistory t of
        [] \<Rightarrow> False
      | _ \<Rightarrow> (case last (profitHistory t) of
                Trade tr \<Rightarrow> runningProfit tr \<ge> staticAmount
              | Milestone _ \<Rightarrow> False))"

text \<open>
  \<^verbatim>\<open>checkProfitThreshold(currentProfit)\<close>, the argument written \<open>curProfit\<close>.
  \<^verbatim>\<open>displayProfitAlert\<close> writes to the console only, so the profit and loss threshold
  alerts change nothing; the milestone branch records.
\<close>

definition checkProfitThreshold :: "instant \<Rightarrow> number \<Rightarrow> profitTracker \<Rightarrow> profitTracker" where
  "checkProfitThreshold now curProfit t =
     (if \<not> alertsEnabled (alerts (config t)) then t
      else if milestoneAlert (alerts (config t)) then
        (case milestoneMode (config t) of
           Fixed \<Rightarrow>
             (let increment = fixedMilestoneIncrement (config t)
              in if curProfit > 0 then
                   (let currentMilestone = of_int \<lfloor>curProfit / increment\<rfloor> * increment
                    in if currentMilestone > 0 \<and> \<not> hasMilestoneBeenReached currentMilestone t
                       then recordMilestone now currentMilestone t else t)
                 else t)
         | Static \<Rightarrow>
             (let staticAmount = staticMilestoneAmount (config t)
              in if curProfit \<ge> staticAmount then
                   (if \<not> wasAboveThreshold staticAmount t
                    then recordMilestone now staticAmount t else t)
                 else t)
         | Progressive \<Rightarrow>
             fold (progressiveStep now curProfit) (profitMilestones (config t)) t)
      else t)"

text \<open>\<^verbatim>\<open>getCurrentBtcPrice()\<close> is the placeholder constant of the source.\<close>

definition getCurrentBtcPrice :: number where
  "getCurrentBtcPrice = 83775"

definition recordBalance ::
  "instant \<Rightarrow> balances \<Rightarrow> string \<Rightarrow> number option \<Rightarrow> profitTracker \<Rightarrow> balanceRecord \<times> profitTracker" where
  "recordBalance now bal src curBtcPrice t =
     (let totalGbpBalance = orElse (gbpAvailable bal) 0;
          btcPrice = orElse curBtcPrice getCurrentBtcPrice;
          totalBtcValue = orElse (btcAvailable bal) 0 * btcPrice;
          totalBalance = totalGbpBalance + totalBtcValue;
          balanceRecord =
            \<lparr> brTimestamp = now, source = src, gbpBalance = totalGbpBalance,
              btcBalance = orElse (btcAvailable bal) 0, brBtcPrice = btcPrice,
              btcValueInGbp = totalBtcValue, totalBalance = totalBalance,
              profitLoss = (if truthy (initialBalance (config t))
                            then totalBalance - the (initialBalance (config t)) else 0),
              portfolioValue = None \<rparr>;
          first = (\<not> truthy (initialBalance (config t)) \<and> length (balanceHistory t @ [balanceRecord]) = 1);
          balanceRecord' = (if first then balanceRecord\<lparr>profitLoss := 0\<rparr> else balanceRecord);
          t' = t\<lparr> config := (if first then (config t)\<lparr>initialBalance := Some totalBalance\<rparr> else config t),
                 balanceHistory := balanceHistory t @ [balanceRecord'] \<rparr>
      in (balanceRecord', checkProfitThreshold now (profitLoss balanceRecord') t'))"

text \<open>A sequence of \<^verbatim>\<open>recordBalance\<close> calls, each with its clock and arguments.\<close>

record balanceCall =
  callTime :: instant
  callBalances :: balances
  callSource :: string
  callPrice :: "number option"

definition recordBalanceCall :: "balanceCall \<Rightarrow> profitTracker \<Rightarrow> profitTracker" where
  "recordBalanceCall c t =
     snd (recordBalance (callTime c) (callBalances c) (callSource c) (callPrice c) t)"

definition recordBalances :: "balanceCall list \<Rightarrow> profitTracker \<Rightarrow> profitTracker" where
  "recordBalances cs t = fold recordBalanceCall cs t"

text \<open>The total value a call records: \<^verbatim>\<open>totalGbpBalance + totalBtcValue\<close>.\<close>

definition callTotal :: "balanceCall \<Rightarrow> number" where
  "callTotal c =
     orElse (gbpAvailable (callBalances c)) 0
       + orElse (btcAvailable (callBalances c)) 0 * orElse (callPrice c) getCurrentBtcPrice"

text \<open>
  A profit sequence: \<^verbatim>\<open>checkProfitThreshold\<close> called with each profit in turn, at the
  given instants.
\<close>

definition checkProfits :: "(instant \<times> number) list \<Rightarrow> profitTracker \<Rightarrow> profitTracker" where
  "checkProfits ps t = fold (\<lambda>(now, p). checkProfitThreshold now p) ps t"

definition milestoneEvents :: "number \<Rightarrow> profitTracker \<Rightarrow> nat" where
  "milestoneEvents m t = length (filter (isMilestone m) (profitHistory t))"

section \<open>timing-controller.js\<close>






record priceData =
  price :: number
  bid :: number
  ask :: number





section \<open>btc-buyer.js: checkBuyingConditions\<close>

record buyTriggers =
  triggersEnabled :: bool
  priceThreshold :: number
  percentageDrop :: number
  minimumGapBetweenBuys :: number
  postSellDropThreshold :: number
  triggerMaxDailyBuyTrades :: "number option"

record limits =
  maxBuyAmount :: number
  maxDailyBuying :: number
  minAccountBalance :: number
  maxBtcHolding :: number
  limitMaxDailyBuyTrades :: "number option"

record strategy =
  supportLevelBuying :: bool
  supportLevels :: "number list"

record buyerConfig =
  buyTriggersCfg :: buyTriggers
  limitsCfg :: limits
  strategyCfg :: strategy

record purchase =
  purchaseTimestamp :: instant
  purchaseGbpAmount :: number

record buyer =
  buyerCfg :: buyerConfig
  buyingHistory :: "purchase list"
  lastBuyTime :: instant
  recentHigh :: number
  lastSellPrice :: "number option"

record conditions =
  cPriceThreshold :: bool
  cPercentageDrop :: bool
  cSufficientBalance :: bool
  cWithinDailyLimit :: bool
  cTimingOk :: bool
  cBelowMaxHolding :: bool
  cSupportLevel :: bool
  cPostSellThreshold :: bool

record buyingCheck =
  checked :: conditions
  shouldBuy :: bool
  availableGbp :: number
  currentBtcHolding :: number
  todaysBuying :: number
  dropFromHigh :: number
  checkLastSellPrice :: "number option"
  postSellDrop :: "number option"

text \<open>
  \<^verbatim>\<open>getTodaysBuyingAmount()\<close> and \<^verbatim>\<open>getTodaysBuyingTradeCount()\<close> compare
  \<^verbatim>\<open>toDateString()\<close> of each purchase with that of the clock; the platform's
  \<open>toDateString\<close> (local calendar day of an instant) is a parameter.
\<close>

definition getTodaysBuyingAmount :: "(instant \<Rightarrow> string) \<Rightarrow> instant \<Rightarrow> buyer \<Rightarrow> number" where
  "getTodaysBuyingAmount toDateString now b =
     sum_list (map purchaseGbpAmount
       (filter (\<lambda>p. toDateString (purchaseTimestamp p) = toDateString now) (buyingHistory b)))"

definition getTodaysBuyingTradeCount :: "(instant \<Rightarrow> string) \<Rightarrow> instant \<Rightarrow> buyer \<Rightarrow> nat" where
  "getTodaysBuyingTradeCount toDateString now b =
     length (filter (\<lambda>p. toDateString (purchaseTimestamp p) = toDateString now) (buyingHistory b))"

text \<open>
  \<^verbatim>\<open>checkBuyingConditions(currentPrice)\<close>. \<open>fetched\<close> is what
  \<^verbatim>\<open>await this.getAccountBalances()\<close> gave: the balances, or the error it threw, which
  leaves the function before anything else happens. The function updates
  \<^verbatim>\<open>this.recentHigh\<close>, so the buyer is returned with the result.
\<close>

definition checkBuyingConditions ::
  "(instant \<Rightarrow> string) \<Rightarrow> instant \<Rightarrow> error + balances \<Rightarrow> priceData \<Rightarrow> buyer
     \<Rightarrow> error + (buyingCheck \<times> buyer)" where
  "checkBuyingConditions toDateString now fetched currentPrice b0 =
     (case fetched of
        Inl e \<Rightarrow> Inl e
      | Inr bal \<Rightarrow>
        (let b = (if price currentPrice > recentHigh b0
                  then b0\<lparr>recentHigh := price currentPrice\<rparr> else b0);
             trig = buyTriggersCfg (buyerCfg b);
             lim = limitsCfg (buyerCfg b);
             strat = strategyCfg (buyerCfg b);
             priceThresholdMet = (triggersEnabled trig \<and> price currentPrice \<le> priceThreshold trig);
             percentageDropMet =
               (recentHigh b > 0 \<and>
                ((recentHigh b - price currentPrice) / recentHigh b) * 100 \<ge> percentageDrop trig);
             availableGbp = orElse (gbpAvailable bal) 0;
             requiredAmount = maxBuyAmount lim + minAccountBalance lim;
             sufficientBalance = (availableGbp \<ge> requiredAmount);
             todaysBuying = getTodaysBuyingAmount toDateString now b;
             todaysTradeCount = getTodaysBuyingTradeCount toDateString now b;
             maxDailyTrades =
               orElse (limitMaxDailyBuyTrades lim) (orElse (triggerMaxDailyBuyTrades trig) 5);
             withinDailyLimit =
               (todaysBuying + maxBuyAmount lim \<le> maxDailyBuying lim
                \<and> of_nat todaysTradeCount < maxDailyTrades);
             timingOk = (of_int (now - lastBuyTime b) \<ge> minimumGapBetweenBuys trig);
             currentBtcHolding = orElse (btcAvailable bal) 0;
             belowMaxHolding = (currentBtcHolding < maxBtcHolding lim);
             supportLevel =
               (supportLevelBuying strat \<and>
                list_ex (\<lambda>level. \<bar>price currentPrice - level\<bar> \<le> level * (1 / 100))
                  (supportLevels strat));
             postSellThreshold =
               (case lastSellPrice b of
                  Some lsp \<Rightarrow> lsp - price currentPrice \<ge> postSellDropThreshold trig
                | None \<Rightarrow> False)
         in Inr (\<lparr> checked = \<lparr> cPriceThreshold = priceThresholdMet,
                        cPercentageDrop = percentageDropMet,
                        cSufficientBalance = sufficientBalance,
                        cWithinDailyLimit = withinDailyLimit, cTimingOk = timingOk,
                        cBelowMaxHolding = belowMaxHolding, cSupportLevel = supportLevel,
                        cPostSellThreshold = postSellThreshold \<rparr>,
                   shouldBuy = ((priceThresholdMet \<or> percentageDropMet \<or> supportLevel)
                                \<and> sufficientBalance \<and> withinDailyLimit \<and> timingOk
                                \<and> belowMaxHolding \<and> postSellThreshold),
                   availableGbp = availableGbp, currentBtcHolding = currentBtcHolding,
                   todaysBuying = todaysBuying,
                   dropFromHigh = (if recentHigh b > 0
                                   then ((recentHigh b - price currentPrice) / recentHigh b) * 100
                                   else 0),
                   checkLastSellPrice = lastSellPrice b,
                   postSellDrop = (if truthy (lastSellPrice b)
                                   then Some (the (lastSellPrice b) - price currentPrice)
                                   else None) \<rparr>, b)))"

section \<open>Auxiliary functions of the proofs\<close>

text \<open>
  The positions \<^const>\<open>fifoWalk\<close> passes before its loop breaks: the lots that stay
  \<open>active\<close>. The function repeats the loop's test and nothing else.
\<close>

fun keptPositions :: "number \<Rightarrow> nat list \<Rightarrow> number \<Rightarrow> payment list \<Rightarrow> nat list" where
  "keptPositions remainingBtcBalance [] runningTotal payments = []"
| "keptPositions remainingBtcBalance (i # rest) runningTotal payments =
     (if runningTotal + btcAmount (payments ! i) \<le> remainingBtcBalance
      then i # keptPositions remainingBtcBalance rest (runningTotal + btcAmount (payments ! i)) payments
      else [])"

text \<open>What a lot contributes to the sum over the \<open>active\<close> and \<open>partial\<close> lots.\<close>

definition heldAmount :: "payment \<Rightarrow> number" where
  "heldAmount p = (if status p = Active \<or> status p = Partial then btcAmount p else 0)"

section \<open>Example states\<close>

text \<open>Scenario 2 of the specification: 50 GBP at 81000 and, later, 25 GBP at 79500.\<close>

definition scenarioOlder :: payment where
  "scenarioOlder = \<lparr> pid = ''pay_1'', timestamp = 1000, gbpAmount = 50, btcAmount = 617 / 1000000,
     btcPrice = 81000, ptype = ''auto-buy'', status = Active,
     consumedDate = None, lastModified = None, sold = None \<rparr>"

definition scenarioNewer :: payment where
  "scenarioNewer = \<lparr> pid = ''pay_2'', timestamp = 2000, gbpAmount = 25, btcAmount = 315 / 1000000,
     btcPrice = 79500, ptype = ''auto-buy'', status = Active,
     consumedDate = None, lastModified = None, sold = None \<rparr>"

definition scenarioBuys :: "buy list" where
  "scenarioBuys =
     [\<lparr> buyTime = 1000, buyId = ''pay_1'', buyGbp = 50, buyBtc = 617 / 1000000,
        buyPrice = 81000, buyType = ''auto-buy'' \<rparr>,
      \<lparr> buyTime = 2000, buyId = ''pay_2'', buyGbp = 25, buyBtc = 315 / 1000000,
        buyPrice = 79500, buyType = ''auto-buy'' \<rparr>]"




text \<open>A tracker as the constructor builds it from the default configuration.\<close>

definition defaultAlerts :: alertSettings where
  "defaultAlerts =
     \<lparr> alertsEnabled = True, profitAlert = True, lossAlert = True, milestoneAlert = True \<rparr>"

definition freshTracker :: "milestoneMode \<Rightarrow> profitTracker" where
  "freshTracker mode = \<lparr> config = \<lparr> profitThreshold = 10, alerts = defaultAlerts,
       profitMilestones = [10, 25, 50, 100, 250, 500, 1000], milestoneMode = mode,
       fixedMilestoneIncrement = 10, staticMilestoneAmount = 10, initialBalance = None \<rparr>,
     profitHistory = [], balanceHistory = [] \<rparr>"

text \<open>The same tracker constructed with \<^verbatim>\<open>initialBalance: 250\<close>.\<close>

definition configuredTracker :: profitTracker where
  "configuredTracker = (freshTracker Progressive)
     \<lparr> config := (config (freshTracker Progressive))\<lparr>initialBalance := Some 250\<rparr> \<rparr>"

definition gbpCall :: "instant \<Rightarrow> number \<Rightarrow> balanceCall" where
  "gbpCall now gbp =
     \<lparr> callTime = now, callBalances = \<lparr> gbpAvailable = Some gbp, btcAvailable = None \<rparr>,
       callSource = ''analysis'', callPrice = Some 80000 \<rparr>"






text \<open>
  A buyer with the default configuration that has never sold, holding 1000 GBP, at a
  price below the buy threshold: every condition but the post-sell one is met.
\<close>

definition neverSoldBuyer :: buyer where
  "neverSoldBuyer =
     \<lparr> buyerCfg = \<lparr>
         buyTriggersCfg = \<lparr> triggersEnabled = True, priceThreshold = 80000, percentageDrop = 5,
           minimumGapBetweenBuys = 3600000, postSellDropThreshold = 10,
           triggerMaxDailyBuyTrades = None \<rparr>,
         limitsCfg = \<lparr> maxBuyAmount = 100, maxDailyBuying = 500, minAccountBalance = 200,
           maxBtcHolding = 5 / 100, limitMaxDailyBuyTrades = None \<rparr>,
         strategyCfg = \<lparr> supportLevelBuying = False, supportLevels = [75000, 70000, 65000] \<rparr> \<rparr>,
       buyingHistory = [], lastBuyTime = 0, recentHigh = 0, lastSellPrice = None \<rparr>"

definition fundedBalances :: balances where
  "fundedBalances = \<lparr> gbpAvailable = Some 1000, btcAvailable = Some (1 / 1000) \<rparr>"

definition lowPrice :: priceData where
  "lowPrice = \<lparr> price = 79000, bid = 78990, ask = 79010 \<rparr>"

section \<open>The ledger: FIFO reconciliation\<close>

subsection \<open>Two active lots\<close>

lemma activePositions_two:
  assumes "i < j" "j < length ps" "status (ps ! i) = Active" "status (ps ! j) = Active"
    and "\<forall>k < length ps. k \<noteq> i \<and> k \<noteq> j \<longrightarrow> status (ps ! k) \<noteq> Active"
  shows "activePositions ps = [i, j]"
proof -
  have "sorted (activePositions ps)" "distinct (activePositions ps)"
    by (simp_all add: activePositions_def sorted_wrt_filter)
  moreover have "set (activePositions ps) = set [i, j]"
    using assms by (auto simp: activePositions_def)
  moreover have "sorted [i, j]" "distinct [i, j]"
    using assms by auto
  ultimately show ?thesis
    by (metis sorted_distinct_set_unique)
qed

lemma fifoPositions_two:
  assumes "i \<noteq> j" "i < length ps" "j < length ps"
    and "status (ps ! i) = Active" "status (ps ! j) = Active"
    and "\<forall>k < length ps. k \<noteq> i \<and> k \<noteq> j \<longrightarrow> status (ps ! k) \<noteq> Active"
    and "timestamp (ps ! i) < timestamp (ps ! j)"
  shows "fifoPositions ps = [i, j]"
proof (cases "i < j")
  case True
  then have "activePositions ps = [i, j]"
    using assms by (intro activePositions_two) auto
  then show ?thesis
    using assms by (simp add: fifoPositions_def)
next
  case False
  then have "j < i"
    using assms by simp
  then have "activePositions ps = [j, i]"
    using assms by (intro activePositions_two) auto
  then show ?thesis
    using assms by (simp add: fifoPositions_def)
qed

text \<open>
  Claim C1, as stated, at scenario 2 of the specification (lots of 0.000617 and 0.000315,
  remaining balance 0.0005): the claim says that the older lot becomes \<open>partial\<close> with amount
  0.0005 and the newer lot stays \<open>active\<close> at 0.000315. The code marks the newer lot
  \<open>consumed\<close>, so the four statements do not hold together.
\<close>

theorem C1_newer_lot_not_left_active:
  "\<not> (btcAmount (cleanupPaymentsAfterSale 5000 (5 / 10000) [scenarioOlder, scenarioNewer] ! 0) = 5 / 10000
      \<and> status (cleanupPaymentsAfterSale 5000 (5 / 10000) [scenarioOlder, scenarioNewer] ! 0) = Partial
      \<and> status (cleanupPaymentsAfterSale 5000 (5 / 10000) [scenarioOlder, scenarioNewer] ! 1) = Active
      \<and> btcAmount (cleanupPaymentsAfterSale 5000 (5 / 10000) [scenarioOlder, scenarioNewer] ! 1) = 315 / 1000000)"
  by (simp add: cleanupPaymentsAfterSale_def fifoPositions_def activePositions_def
      scenarioOlder_def scenarioNewer_def dust_def markPartial_def markConsumed_def upt_rec)

text \<open>
  Claim C1, amended: in a ledger whose only active lots are at positions \<open>i\<close> (the older)
  and \<open>j\<close> (the newer), reconciling to a balance \<open>B\<close> with \<open>0 < B < btcAmount\<close> of the older
  lot and \<open>B\<close> above the dust threshold truncates the older lot to \<open>B\<close> and marks it
  \<open>partial\<close>, and marks the newer lot \<open>consumed\<close>, its amount unchanged.
\<close>

theorem C1_two_lots_partial_then_consumed:
  assumes "i \<noteq> j" "i < length ps" "j < length ps"
    and "status (ps ! i) = Active" "status (ps ! j) = Active"
    and "\<forall>k < length ps. k \<noteq> i \<and> k \<noteq> j \<longrightarrow> status (ps ! k) \<noteq> Active"
    and "timestamp (ps ! i) < timestamp (ps ! j)"
    and "0 < B" "B < btcAmount (ps ! i)" "dust < B"
  shows "btcAmount (cleanupPaymentsAfterSale now B ps ! i) = B
       \<and> status (cleanupPaymentsAfterSale now B ps ! i) = Partial
       \<and> status (cleanupPaymentsAfterSale now B ps ! j) = Consumed
       \<and> btcAmount (cleanupPaymentsAfterSale now B ps ! j) = btcAmount (ps ! j)"
proof -
  have "fifoPositions ps = [i, j]"
    using assms by (intro fifoPositions_two) auto
  then show ?thesis
    using assms by (simp add: cleanupPaymentsAfterSale_def markPartial_def markConsumed_def)
qed

text \<open>Claim C1, amended, at scenario 2: the hypotheses hold there, and so does the conclusion.\<close>

theorem C1_two_lots_witness:
  "btcAmount (cleanupPaymentsAfterSale 5000 (5 / 10000) [scenarioOlder, scenarioNewer] ! 0) = 5 / 10000
   \<and> status (cleanupPaymentsAfterSale 5000 (5 / 10000) [scenarioOlder, scenarioNewer] ! 0) = Partial
   \<and> status (cleanupPaymentsAfterSale 5000 (5 / 10000) [scenarioOlder, scenarioNewer] ! 1) = Consumed
   \<and> btcAmount (cleanupPaymentsAfterSale 5000 (5 / 10000) [scenarioOlder, scenarioNewer] ! 1)
       = btcAmount ([scenarioOlder, scenarioNewer] ! 1)"
  by (rule C1_two_lots_partial_then_consumed)
     (simp_all add: scenarioOlder_def scenarioNewer_def dust_def less_Suc_eq)

subsection \<open>What the walk changes\<close>

lemma length_consumeRemaining [simp]: "length (consumeRemaining now js ps) = length ps"
  by (induction js arbitrary: ps) simp_all

lemma length_fifoWalk [simp]: "length (fifoWalk now B is rt ps) = length ps"
  by (induction "is" arbitrary: rt) (simp_all add: Let_def)

lemma markConsumed_idem [simp]: "markConsumed now (markConsumed now p) = markConsumed now p"
  by (simp add: markConsumed_def)

lemma timestamp_markConsumed [simp]: "timestamp (markConsumed now p) = timestamp p"
  by (simp add: markConsumed_def)

lemma timestamp_markPartial [simp]: "timestamp (markPartial now a p) = timestamp p"
  by (simp add: markPartial_def)

lemma nth_consumeRemaining:
  assumes "k < length ps"
  shows "consumeRemaining now js ps ! k = (if k \<in> set js then markConsumed now (ps ! k) else ps ! k)"
  using assms
proof (induction js arbitrary: ps)
  case Nil
  then show ?case by simp
next
  case (Cons j js)
  then show ?case
    by (cases "j = k") (simp_all add: nth_list_update)
qed

lemma nth_fifoWalk_outside:
  assumes "k \<notin> set is" "k < length ps"
  shows "fifoWalk now B is rt ps ! k = ps ! k"
  using assms
proof (induction "is" arbitrary: rt)
  case Nil
  then show ?case by simp
next
  case (Cons i rest)
  then show ?case
    by (simp add: Let_def nth_consumeRemaining nth_list_update)
qed

lemma keptPositions_prefix: "\<exists>zs. is = keptPositions B is rt ps @ zs"
  by (induction "is" arbitrary: rt) simp_all

lemma set_keptPositions: "set (keptPositions B is rt ps) \<subseteq> set is"
  using keptPositions_prefix [of "is" B rt ps] by (metis set_append Un_upper1)

lemma nth_fifoWalk_kept:
  assumes "k \<in> set (keptPositions B is rt ps)" "distinct is" "k < length ps"
  shows "fifoWalk now B is rt ps ! k = ps ! k"
  using assms
proof (induction "is" arbitrary: rt)
  case Nil
  then show ?case by simp
next
  case (Cons i rest)
  show ?case
  proof (cases "rt + btcAmount (ps ! i) \<le> B")
    case fits: True
    show ?thesis
    proof (cases "k = i")
      case True
      then have "k \<notin> set rest"
        using Cons.prems by simp
      then show ?thesis
        using fits Cons.prems by (simp add: nth_fifoWalk_outside)
    next
      case False
      then show ?thesis
        using fits Cons by simp
    qed
  next
    case False
    then show ?thesis
      using Cons.prems by simp
  qed
qed

lemma status_fifoWalk_beyond:
  assumes "k \<in> set is" "k \<notin> set (keptPositions B is rt ps)" "distinct is" "k < length ps"
  shows "status (fifoWalk now B is rt ps ! k) \<noteq> Active"
  using assms
proof (induction "is" arbitrary: rt)
  case Nil
  then show ?case by simp
next
  case (Cons i rest)
  show ?case
  proof (cases "rt + btcAmount (ps ! i) \<le> B")
    case True
    then show ?thesis
      using Cons by auto
  next
    case False
    then show ?thesis
      using Cons.prems
      by (auto simp: Let_def nth_consumeRemaining nth_list_update markConsumed_def markPartial_def)
  qed
qed

lemma timestamp_fifoWalk:
  assumes "k < length ps"
  shows "timestamp (fifoWalk now B is rt ps ! k) = timestamp (ps ! k)"
  using assms
proof (induction "is" arbitrary: rt)
  case Nil
  then show ?case by simp
next
  case (Cons i rest)
  have u: "timestamp (ps[i := x] ! k) = timestamp (ps ! k)" if "timestamp x = timestamp (ps ! i)" for x
    using that Cons.prems by (cases "i = k") simp_all
  show ?case
    using Cons by (simp add: Let_def nth_consumeRemaining u)
qed

lemma fifoWalk_kept_unchanged:
  assumes "\<forall>k \<in> set (keptPositions B is rt ps). btcAmount (qs ! k) = btcAmount (ps ! k)"
  shows "fifoWalk now B (keptPositions B is rt ps) rt qs = qs"
  using assms
proof (induction "is" arbitrary: rt)
  case Nil
  then show ?case by simp
next
  case (Cons i rest)
  then show ?case by simp
qed

subsection \<open>The FIFO order of the lots that stay active\<close>

lemma insort_key_cong_set:
  assumes "f x = g x" "\<forall>y \<in> set ys. f y = g y"
  shows "insort_key f x ys = insort_key g x ys"
  using assms by (induction ys) simp_all

lemma sort_key_cong_set:
  assumes "\<forall>x \<in> set xs. f x = g x"
  shows "sort_key f xs = sort_key g xs"
  using assms
proof (induction xs)
  case Nil
  then show ?case by simp
next
  case (Cons x xs)
  then have eq: "sort_key f xs = sort_key g xs"
    by simp
  have "insort_key f x (sort_key g xs) = insort_key g x (sort_key g xs)"
    using Cons.prems by (intro insort_key_cong_set) simp_all
  then show ?case
    by (simp add: eq)
qed

lemma filter_prefix_member:
  assumes "distinct (xs @ zs)"
  shows "filter (\<lambda>i. i \<in> set xs) (xs @ zs) = xs"
proof -
  have "filter (\<lambda>i. i \<in> set xs) xs = xs"
    by simp
  moreover have "filter (\<lambda>i. i \<in> set xs) zs = []"
    using assms by (auto simp: filter_empty_conv)
  ultimately show ?thesis
    by simp
qed

lemma set_activePositions:
  "set (activePositions ps) = {i. i < length ps \<and> status (ps ! i) = Active}"
  by (auto simp: activePositions_def)

lemma set_fifoPositions [simp]: "set (fifoPositions ps) = set (activePositions ps)"
  by (simp add: fifoPositions_def)

lemma distinct_fifoPositions [simp]: "distinct (fifoPositions ps)"
  by (simp add: fifoPositions_def activePositions_def)

lemma fifoPositions_after_walk:
  "fifoPositions (fifoWalk now B (fifoPositions ps) 0 ps) = keptPositions B (fifoPositions ps) 0 ps"
proof -
  let ?is = "fifoPositions ps"
  let ?kept = "keptPositions B ?is 0 ps"
  let ?ps1 = "fifoWalk now B ?is 0 ps"
  have kept_sub: "set ?kept \<subseteq> set (activePositions ps)"
    using set_keptPositions [of B ?is 0 ps] by simp
  have act: "status (?ps1 ! i) = Active \<longleftrightarrow> i \<in> set ?kept" if "i < length ps" for i
  proof (cases "i \<in> set ?is")
    case walked: True
    show ?thesis
    proof (cases "i \<in> set ?kept")
      case True
      then have "?ps1 ! i = ps ! i"
        using that by (intro nth_fifoWalk_kept) simp_all
      moreover have "status (ps ! i) = Active"
        using walked by (simp add: set_activePositions)
      ultimately show ?thesis
        using True by simp
    next
      case False
      then show ?thesis
        using walked that status_fifoWalk_beyond [of i ?is B 0 ps now] by simp
    qed
  next
    case False
    then have "?ps1 ! i = ps ! i"
      using that by (intro nth_fifoWalk_outside) simp_all
    moreover have "status (ps ! i) \<noteq> Active"
      using False that by (simp add: set_activePositions)
    moreover have "i \<notin> set ?kept"
      using False kept_sub by auto
    ultimately show ?thesis
      by simp
  qed
  have "activePositions ?ps1 = filter (\<lambda>i. i \<in> set ?kept) [0..<length ps]"
    unfolding activePositions_def length_fifoWalk
    by (rule filter_cong [OF refl]) (simp add: act)
  also have "\<dots> = filter (\<lambda>i. i \<in> set ?kept) (activePositions ps)"
  proof -
    have "filter (\<lambda>i. i \<in> set ?kept) [0..<length ps]
        = filter (\<lambda>i. status (ps ! i) = Active \<and> i \<in> set ?kept) [0..<length ps]"
      by (rule filter_cong [OF refl]) (use kept_sub in \<open>auto simp: set_activePositions\<close>)
    then show ?thesis
      by (simp add: activePositions_def)
  qed
  finally have ap: "activePositions ?ps1 = filter (\<lambda>i. i \<in> set ?kept) (activePositions ps)" .
  have "fifoPositions ?ps1 = sort_key (\<lambda>i. timestamp (?ps1 ! i)) (activePositions ?ps1)"
    by (simp add: fifoPositions_def)
  also have "\<dots> = sort_key (\<lambda>i. timestamp (ps ! i)) (activePositions ?ps1)"
    by (rule sort_key_cong_set) (auto simp: set_activePositions timestamp_fifoWalk)
  also have "\<dots> = sort_key (\<lambda>i. timestamp (ps ! i))
      (filter (\<lambda>i. i \<in> set ?kept) (activePositions ps))"
    using ap by simp
  also have "\<dots> = filter (\<lambda>i. i \<in> set ?kept) ?is"
    by (simp add: fifoPositions_def filter_sort)
  also have "\<dots> = ?kept"
  proof -
    obtain zs where zs: "?is = ?kept @ zs"
      using keptPositions_prefix by blast
    have "distinct (?kept @ zs)"
      using zs distinct_fifoPositions [of ps] by simp
    then have "filter (\<lambda>i. i \<in> set ?kept) (?kept @ zs) = ?kept"
      by (rule filter_prefix_member)
    then show ?thesis
      using zs by simp
  qed
  finally show ?thesis .
qed

text \<open>
  Claim C3: for every ledger, every balance \<open>B\<close> and any two instants, reconciling to \<open>B\<close> a
  second time leaves the ledger (every field of every lot) as the first reconciliation
  left it.
\<close>

theorem C3_cleanup_idempotent:
  "cleanupPaymentsAfterSale now' B (cleanupPaymentsAfterSale now B ps)
     = cleanupPaymentsAfterSale now B ps"
proof (cases "B \<le> 0")
  case True
  have "map (\<lambda>p. if status p = Active then markConsumed now' p else p)
          (map (\<lambda>p. if status p = Active then markConsumed now p else p) ps)
      = map (\<lambda>p. if status p = Active then markConsumed now p else p) ps"
    by (simp add: markConsumed_def)
  then show ?thesis
    using True by (simp add: cleanupPaymentsAfterSale_def)
next
  case False
  let ?is = "fifoPositions ps"
  let ?ps1 = "fifoWalk now B ?is 0 ps"
  have "\<forall>k \<in> set (keptPositions B ?is 0 ps). btcAmount (?ps1 ! k) = btcAmount (ps ! k)"
  proof
    fix k
    assume k: "k \<in> set (keptPositions B ?is 0 ps)"
    then have "k \<in> set ?is"
      using set_keptPositions by blast
    then have "k < length ps"
      by (simp add: set_activePositions)
    then have "?ps1 ! k = ps ! k"
      using k by (intro nth_fifoWalk_kept) simp_all
    then show "btcAmount (?ps1 ! k) = btcAmount (ps ! k)"
      by simp
  qed
  then have "fifoWalk now' B (keptPositions B ?is 0 ps) 0 ?ps1 = ?ps1"
    by (rule fifoWalk_kept_unchanged)
  then show ?thesis
    using False by (simp add: cleanupPaymentsAfterSale_def fifoPositions_after_walk)
qed

subsection \<open>The amount that remains after a reconciliation\<close>

lemma sum_list_filter_heldAmount:
  "sum_list (map btcAmount (filter (\<lambda>p. status p = Active \<or> status p = Partial) ps))
     = sum_list (map heldAmount ps)"
  by (induction ps) (simp_all add: heldAmount_def)

lemma heldAmount_markConsumed [simp]: "heldAmount (markConsumed now p) = 0"
  by (simp add: heldAmount_def markConsumed_def)

lemma heldAmount_markPartial [simp]: "heldAmount (markPartial now a p) = a"
  by (simp add: heldAmount_def markPartial_def)

lemma sum_list_all_zero:
  fixes f :: "'a \<Rightarrow> rat"
  assumes "\<forall>x \<in> set xs. f x = 0"
  shows "sum_list (map f xs) = 0"
  using assms by (induction xs) simp_all

lemma held_consumed_positions:
  assumes "\<forall>j \<in> set js. j < length ps"
  shows "sum_list (map (\<lambda>k. heldAmount (consumeRemaining now js ps ! k)) js) = 0"
  using assms by (intro sum_list_all_zero) (simp add: nth_consumeRemaining)

lemma held_after_walk:
  assumes "distinct is" "\<forall>i \<in> set is. i < length ps \<and> status (ps ! i) = Active" "rt \<le> B"
  shows "rt + sum_list (map (\<lambda>k. heldAmount (fifoWalk now B is rt ps ! k)) is) \<le> B
       \<and> (B - dust \<le> rt + sum_list (map (\<lambda>k. heldAmount (fifoWalk now B is rt ps ! k)) is)
          \<or> sum_list (map (\<lambda>k. heldAmount (fifoWalk now B is rt ps ! k)) is)
              = sum_list (map (\<lambda>k. btcAmount (ps ! k)) is))"
  using assms
proof (induction "is" arbitrary: rt)
  case Nil
  then show ?case by simp
next
  case (Cons i rest)
  have i: "i < length ps" "status (ps ! i) = Active" "i \<notin> set rest"
    using Cons.prems by simp_all
  have rest: "distinct rest" "\<forall>j \<in> set rest. j < length ps \<and> status (ps ! j) = Active"
    using Cons.prems by simp_all
  show ?case
  proof (cases "rt + btcAmount (ps ! i) \<le> B")
    case True
    let ?w = "fifoWalk now B rest (rt + btcAmount (ps ! i)) ps"
    have w: "fifoWalk now B (i # rest) rt ps = ?w"
      using True by simp
    have "?w ! i = ps ! i"
      using i by (intro nth_fifoWalk_outside) simp_all
    then have hi: "heldAmount (?w ! i) = btcAmount (ps ! i)"
      using i by (simp add: heldAmount_def)
    show ?thesis
      unfolding w using Cons.IH [OF rest True] hi by auto
  next
    case False
    show ?thesis
    proof (cases "B - rt > dust")
      case True
      let ?q = "ps[i := markPartial now (B - rt) (ps ! i)]"
      let ?w = "consumeRemaining now rest ?q"
      have w: "fifoWalk now B (i # rest) rt ps = ?w"
        using False True by (simp add: Let_def)
      have "?w ! i = markPartial now (B - rt) (ps ! i)"
        using i by (simp add: nth_consumeRemaining)
      then have hi: "heldAmount (?w ! i) = B - rt"
        by simp
      have "sum_list (map (\<lambda>k. heldAmount (?w ! k)) rest) = 0"
        using rest by (intro held_consumed_positions) simp
      then show ?thesis
        unfolding w using hi by (simp add: dust_def)
    next
      case nd: False
      let ?q = "ps[i := markConsumed now (ps ! i)]"
      let ?w = "consumeRemaining now rest ?q"
      have w: "fifoWalk now B (i # rest) rt ps = ?w"
        using False nd by (simp add: Let_def)
      have "?w ! i = markConsumed now (ps ! i)"
        using i by (simp add: nth_consumeRemaining)
      then have hi: "heldAmount (?w ! i) = 0"
        by simp
      have "sum_list (map (\<lambda>k. heldAmount (?w ! k)) rest) = 0"
        using rest by (intro held_consumed_positions) simp
      then show ?thesis
        unfolding w using hi nd Cons.prems(3) by simp
    qed
  qed
qed

lemma sum_list_map_nth_upt:
  "sum_list (map (\<lambda>k. f (xs ! k)) [0..<length xs]) = sum_list (map f xs)"
  by (simp add: map_nth flip: map_map [unfolded comp_def])

lemma sum_list_same_positions:
  fixes f :: "nat \<Rightarrow> rat"
  assumes "distinct xs" "set xs = {0..<n}"
  shows "sum_list (map f xs) = sum_list (map f [0..<n])"
  using assms by (simp add: sum_list_distinct_conv_sum_set)

lemma fifoPositions_all_active:
  assumes "\<forall>p \<in> set ps. status p = Active"
  shows "set (fifoPositions ps) = {0..<length ps}"
  using assms by (auto simp: set_activePositions)

lemma held_total_all_active:
  assumes "\<forall>p \<in> set ps. status p = Active" "0 < B" "B \<le> sum_list (map btcAmount ps)"
  shows "\<bar>sum_list (map heldAmount (cleanupPaymentsAfterSale now B ps)) - B\<bar> \<le> dust"
proof -
  let ?is = "fifoPositions ps"
  let ?w = "fifoWalk now B ?is 0 ps"
  let ?S = "sum_list (map (\<lambda>k. heldAmount (?w ! k)) ?is)"
  have all: "set ?is = {0..<length ps}"
    using assms(1) by (rule fifoPositions_all_active)
  have act: "\<forall>i \<in> set ?is. i < length ps \<and> status (ps ! i) = Active"
    by (simp add: set_activePositions)
  have "0 + ?S \<le> B \<and> (B - dust \<le> 0 + ?S \<or> ?S = sum_list (map (\<lambda>k. btcAmount (ps ! k)) ?is))"
    using assms(2) by (intro held_after_walk act) simp_all
  moreover have "sum_list (map (\<lambda>k. btcAmount (ps ! k)) ?is) = sum_list (map btcAmount ps)"
    using sum_list_same_positions [OF distinct_fifoPositions all, of "\<lambda>k. btcAmount (ps ! k)"]
    by (simp add: sum_list_map_nth_upt)
  moreover have "?S = sum_list (map heldAmount ?w)"
  proof -
    have "?S = sum_list (map (\<lambda>k. heldAmount (?w ! k)) [0..<length ps])"
      using sum_list_same_positions [OF distinct_fifoPositions all] .
    also have "\<dots> = sum_list (map heldAmount ?w)"
      using sum_list_map_nth_upt [of heldAmount ?w] by simp
    finally show ?thesis .
  qed
  moreover have "cleanupPaymentsAfterSale now B ps = ?w"
    using assms(2) by (simp add: cleanupPaymentsAfterSale_def)
  ultimately show ?thesis
    using assms(3) by (auto simp: dust_def abs_le_iff)
qed

lemma recordBuy_all_active:
  assumes "\<forall>p \<in> set ps. status p = Active"
  shows "\<forall>p \<in> set (fold recordBuy bs ps). status p = Active"
  using assms
proof (induction bs arbitrary: ps)
  case Nil
  then show ?case by simp
next
  case (Cons b bs)
  have "\<forall>p \<in> set (recordBuy b ps). status p = Active"
    using Cons.prems by (simp add: recordBuy_def recordPayment_def Let_def)
  then show ?case
    using Cons.IH by simp
qed

text \<open>
  Claim C2: for the ledger produced by any sequence of \<^verbatim>\<open>recordPayment\<close> calls and any
  balance \<open>B\<close> with \<open>0 < B\<close> and \<open>B\<close> at most the total amount of the active lots, after one
  reconciliation to \<open>B\<close> the amounts of the lots that are \<open>active\<close> or \<open>partial\<close> sum to \<open>B\<close>
  within the dust tolerance \<open>1e-8\<close>.
\<close>

theorem C2_remaining_amount_is_balance:
  assumes "0 < B"
    and "B \<le> sum_list (map btcAmount (filter (\<lambda>p. status p = Active) (recordPayments bs)))"
  shows "\<bar>sum_list (map btcAmount (filter (\<lambda>p. status p = Active \<or> status p = Partial)
            (cleanupPaymentsAfterSale now B (recordPayments bs)))) - B\<bar> \<le> dust"
proof -
  have a: "\<forall>p \<in> set (recordPayments bs). status p = Active"
    unfolding recordPayments_def by (rule recordBuy_all_active) simp
  then have "filter (\<lambda>p. status p = Active) (recordPayments bs) = recordPayments bs"
    by simp
  then have "B \<le> sum_list (map btcAmount (recordPayments bs))"
    using assms(2) by simp
  then show ?thesis
    using a assms(1) by (simp add: sum_list_filter_heldAmount held_total_all_active)
qed

text \<open>
  Claim C2 at scenario 2: the two buys of 0.000617 and 0.000315, reconciled to 0.0005,
  leave exactly 0.0005 in the active and partial lots.
\<close>

theorem C2_remaining_amount_witness:
  "recordPayments scenarioBuys = [scenarioOlder, scenarioNewer]
   \<and> sum_list (map btcAmount (filter (\<lambda>p. status p = Active \<or> status p = Partial)
        (cleanupPaymentsAfterSale 5000 (5 / 10000) (recordPayments scenarioBuys)))) = 5 / 10000
   \<and> \<bar>sum_list (map btcAmount (filter (\<lambda>p. status p = Active \<or> status p = Partial)
        (cleanupPaymentsAfterSale 5000 (5 / 10000) (recordPayments scenarioBuys)))) - 5 / 10000\<bar> \<le> dust"
proof -
  have l: "recordPayments scenarioBuys = [scenarioOlder, scenarioNewer]"
    by (simp add: recordPayments_def recordBuy_def recordPayment_def scenarioBuys_def
        scenarioOlder_def scenarioNewer_def Let_def)
  have h: "5 / 10000 \<le> sum_list (map btcAmount
      (filter (\<lambda>p. status p = Active) (recordPayments scenarioBuys)))"
    by (simp add: l scenarioOlder_def scenarioNewer_def)
  have v: "sum_list (map btcAmount (filter (\<lambda>p. status p = Active \<or> status p = Partial)
        (cleanupPaymentsAfterSale 5000 (5 / 10000) (recordPayments scenarioBuys)))) = 5 / 10000"
    by (simp add: l cleanupPaymentsAfterSale_def fifoPositions_def activePositions_def
        scenarioOlder_def scenarioNewer_def dust_def markPartial_def markConsumed_def upt_rec)
  show ?thesis
    using l v C2_remaining_amount_is_balance [OF _ h, of 5000] by simp
qed

subsection \<open>Lots that are not active\<close>












section \<open>The FIFO cost basis of a sell\<close>





section \<open>The profit tracker\<close>

subsection \<open>What a check of the profit changes\<close>

lemma reached_iff_events: "hasMilestoneBeenReached m t \<longleftrightarrow> 0 < milestoneEvents m t"
  by (simp add: hasMilestoneBeenReached_def milestoneEvents_def list_ex_iff filter_empty_conv)

lemma config_recordMilestone [simp]: "config (recordMilestone now m t) = config t"
  by (simp add: recordMilestone_def)

lemma balanceHistory_recordMilestone [simp]:
  "balanceHistory (recordMilestone now m t) = balanceHistory t"
  by (simp add: recordMilestone_def)

lemma events_recordMilestone:
  "milestoneEvents M (recordMilestone now m t) = milestoneEvents M t + (if m = M then 1 else 0)"
  by (simp add: recordMilestone_def milestoneEvents_def isMilestone_def)

lemma config_progressiveStep [simp]: "config (progressiveStep now p m t) = config t"
  by (simp add: progressiveStep_def)

lemma balanceHistory_progressiveStep [simp]:
  "balanceHistory (progressiveStep now p m t) = balanceHistory t"
  by (simp add: progressiveStep_def)

lemma config_fold_progressiveStep [simp]:
  "config (fold (progressiveStep now p) ms t) = config t"
  by (induction ms arbitrary: t) simp_all

lemma balanceHistory_fold_progressiveStep [simp]:
  "balanceHistory (fold (progressiveStep now p) ms t) = balanceHistory t"
  by (induction ms arbitrary: t) simp_all

lemma config_checkProfitThreshold [simp]: "config (checkProfitThreshold now p t) = config t"
  by (simp add: checkProfitThreshold_def Let_def split: milestoneMode.splits)

lemma balanceHistory_checkProfitThreshold [simp]:
  "balanceHistory (checkProfitThreshold now p t) = balanceHistory t"
  by (simp add: checkProfitThreshold_def Let_def split: milestoneMode.splits)

subsection \<open>The baseline\<close>

text \<open>
  Claim C5, as stated, at a tracker constructed with \<^verbatim>\<open>initialBalance: 250\<close> and an empty
  history: the first snapshot, of total value 275, has profit 25 and not 0.
\<close>

theorem C5_first_snapshot_with_configured_baseline:
  "\<not> (profitLoss (hd (balanceHistory (recordBalances [gbpCall 1 275] configuredTracker))) = 0)"
  by (simp add: recordBalances_def recordBalanceCall_def recordBalance_def configuredTracker_def
      freshTracker_def gbpCall_def truthy_def orElse_def Let_def)

lemma recordBalanceCall_baseline:
  assumes "initialBalance (config t) = Some b" "b \<noteq> 0"
  shows "initialBalance (config (recordBalanceCall c t)) = Some b"
    and "\<exists>r. balanceHistory (recordBalanceCall c t) = balanceHistory t @ [r]
           \<and> totalBalance r = callTotal c \<and> profitLoss r = callTotal c - b"
  using assms
  by (simp_all add: recordBalanceCall_def recordBalance_def Let_def truthy_def callTotal_def)

lemma recordBalanceCall_first:
  assumes "balanceHistory t = []" "\<not> truthy (initialBalance (config t))"
  shows "initialBalance (config (recordBalanceCall c t)) = Some (callTotal c)"
    and "\<exists>r. balanceHistory (recordBalanceCall c t) = [r]
           \<and> totalBalance r = callTotal c \<and> profitLoss r = 0"
  using assms
  by (simp_all add: recordBalanceCall_def recordBalance_def Let_def callTotal_def)

lemma recordBalanceCall_appends:
  "\<exists>r. balanceHistory (recordBalanceCall c t) = balanceHistory t @ [r]"
  by (simp add: recordBalanceCall_def recordBalance_def Let_def)

lemma recordBalances_appends:
  "\<exists>rs. balanceHistory (recordBalances cs t) = balanceHistory t @ rs"
proof (induction cs arbitrary: t)
  case Nil
  then show ?case by (simp add: recordBalances_def)
next
  case (Cons c cs)
  obtain r where "balanceHistory (recordBalanceCall c t) = balanceHistory t @ [r]"
    using recordBalanceCall_appends by blast
  moreover obtain rs where
    "balanceHistory (recordBalances cs (recordBalanceCall c t))
       = balanceHistory (recordBalanceCall c t) @ rs"
    using Cons.IH by blast
  ultimately show ?case
    by (simp add: recordBalances_def)
qed

lemma recordBalances_baseline:
  assumes "initialBalance (config t) = Some b" "b \<noteq> 0"
  shows "initialBalance (config (recordBalances cs t)) = Some b
       \<and> (\<exists>rs. balanceHistory (recordBalances cs t) = balanceHistory t @ rs
             \<and> map totalBalance rs = map callTotal cs
             \<and> map profitLoss rs = map (\<lambda>c. callTotal c - b) cs)"
  using assms
proof (induction cs arbitrary: t)
  case Nil
  then show ?case by (simp add: recordBalances_def)
next
  case (Cons c cs)
  let ?t = "recordBalanceCall c t"
  have step: "recordBalances (c # cs) t = recordBalances cs ?t"
    by (simp add: recordBalances_def)
  obtain r where r: "balanceHistory ?t = balanceHistory t @ [r]"
      "totalBalance r = callTotal c" "profitLoss r = callTotal c - b"
    using recordBalanceCall_baseline(2) [OF Cons.prems] by blast
  have b': "initialBalance (config ?t) = Some b"
    using recordBalanceCall_baseline(1) [OF Cons.prems] .
  obtain rs where rs: "balanceHistory (recordBalances cs ?t) = balanceHistory ?t @ rs"
      "map totalBalance rs = map callTotal cs" "map profitLoss rs = map (\<lambda>c. callTotal c - b) cs"
    and b'': "initialBalance (config (recordBalances cs ?t)) = Some b"
    using Cons.IH [OF b' Cons.prems(2)] by blast
  have "balanceHistory (recordBalances cs ?t) = balanceHistory t @ (r # rs)"
    using rs(1) r(1) by simp
  moreover have "map totalBalance (r # rs) = map callTotal (c # cs)"
    using r rs by simp
  moreover have "map profitLoss (r # rs) = map (\<lambda>c. callTotal c - b) (c # cs)"
    using r rs by simp
  ultimately show ?case
    unfolding step using b'' by blast
qed

lemma recordBalances_fresh_first:
  assumes "balanceHistory t = []" "\<not> truthy (initialBalance (config t))"
  shows "profitLoss (hd (balanceHistory (recordBalances (c # cs) t))) = 0"
proof -
  obtain r where r: "balanceHistory (recordBalanceCall c t) = [r]" "profitLoss r = 0"
    using recordBalanceCall_first(2) [OF assms] by blast
  obtain rs where
    "balanceHistory (recordBalances cs (recordBalanceCall c t))
       = balanceHistory (recordBalanceCall c t) @ rs"
    using recordBalances_appends by blast
  then show ?thesis
    using r by (simp add: recordBalances_def)
qed

lemma recordBalances_fresh_all:
  assumes "balanceHistory t = []" "\<not> truthy (initialBalance (config t))" "callTotal c \<noteq> 0"
  shows "map profitLoss (balanceHistory (recordBalances (c # cs) t))
           = 0 # map (\<lambda>c'. callTotal c' - callTotal c) cs"
    and "map totalBalance (balanceHistory (recordBalances (c # cs) t)) = map callTotal (c # cs)"
    and "initialBalance (config (recordBalances (c # cs) t)) = Some (callTotal c)"
proof -
  let ?t = "recordBalanceCall c t"
  obtain r where r: "balanceHistory ?t = [r]" "totalBalance r = callTotal c" "profitLoss r = 0"
    using recordBalanceCall_first(2) [OF assms(1,2)] by blast
  have b: "initialBalance (config ?t) = Some (callTotal c)"
    using recordBalanceCall_first(1) [OF assms(1,2)] .
  obtain rs where rs: "balanceHistory (recordBalances cs ?t) = balanceHistory ?t @ rs"
      "map totalBalance rs = map callTotal cs"
      "map profitLoss rs = map (\<lambda>c'. callTotal c' - callTotal c) cs"
    and b': "initialBalance (config (recordBalances cs ?t)) = Some (callTotal c)"
    using recordBalances_baseline [OF b assms(3)] by blast
  have step: "recordBalances (c # cs) t = recordBalances cs ?t"
    by (simp add: recordBalances_def)
  show "map profitLoss (balanceHistory (recordBalances (c # cs) t))
           = 0 # map (\<lambda>c'. callTotal c' - callTotal c) cs"
    unfolding step using r rs by simp
  show "map totalBalance (balanceHistory (recordBalances (c # cs) t)) = map callTotal (c # cs)"
    unfolding step using r rs by simp
  show "initialBalance (config (recordBalances (c # cs) t)) = Some (callTotal c)"
    unfolding step using b' .
qed

text \<open>
  Claim C5, amended. For every sequence of \<^verbatim>\<open>recordBalance\<close> calls on a tracker \<open>t\<close> without
  a baseline and with an empty balance history, the first snapshot has profit 0 and its
  total value becomes the baseline; when that total is not zero, the baseline stays and
  every later snapshot's profit is its total value minus the baseline. On a tracker \<open>u\<close>
  that has a baseline \<open>b \<noteq> 0\<close>, the baseline stays and every snapshot recorded, the first
  included, has profit equal to its total value minus \<open>b\<close>.
\<close>

theorem C5_profit_baseline:
  "(balanceHistory t = [] \<and> \<not> truthy (initialBalance (config t)) \<longrightarrow>
      profitLoss (hd (balanceHistory (recordBalances (c # cs) t))) = 0
      \<and> initialBalance (config (recordBalances [c] t)) = Some (callTotal c)
      \<and> (callTotal c \<noteq> 0 \<longrightarrow>
           initialBalance (config (recordBalances (c # cs) t)) = Some (callTotal c)
           \<and> map totalBalance (balanceHistory (recordBalances (c # cs) t)) = map callTotal (c # cs)
           \<and> map profitLoss (balanceHistory (recordBalances (c # cs) t))
               = 0 # map (\<lambda>c'. callTotal c' - callTotal c) cs))
   \<and> (initialBalance (config u) = Some b \<and> b \<noteq> 0 \<longrightarrow>
        initialBalance (config (recordBalances ds u)) = Some b
        \<and> map totalBalance (drop (length (balanceHistory u)) (balanceHistory (recordBalances ds u)))
            = map callTotal ds
        \<and> map profitLoss (drop (length (balanceHistory u)) (balanceHistory (recordBalances ds u)))
            = map (\<lambda>c'. callTotal c' - b) ds)"
proof (intro conjI impI)
  assume "balanceHistory t = [] \<and> \<not> truthy (initialBalance (config t))"
  then have f: "balanceHistory t = []" "\<not> truthy (initialBalance (config t))"
    by simp_all
  show "profitLoss (hd (balanceHistory (recordBalances (c # cs) t))) = 0"
    using f by (rule recordBalances_fresh_first)
  show "initialBalance (config (recordBalances [c] t)) = Some (callTotal c)"
    using recordBalanceCall_first(1) [OF f] by (simp add: recordBalances_def)
  assume nz: "callTotal c \<noteq> 0"
  show "initialBalance (config (recordBalances (c # cs) t)) = Some (callTotal c)"
    using f nz by (rule recordBalances_fresh_all(3))
  show "map totalBalance (balanceHistory (recordBalances (c # cs) t)) = map callTotal (c # cs)"
    using f nz by (rule recordBalances_fresh_all(2))
  show "map profitLoss (balanceHistory (recordBalances (c # cs) t))
               = 0 # map (\<lambda>c'. callTotal c' - callTotal c) cs"
    using f nz by (rule recordBalances_fresh_all(1))
next
  assume "initialBalance (config u) = Some b \<and> b \<noteq> 0"
  then have b: "initialBalance (config u) = Some b" "b \<noteq> 0"
    by simp_all
  obtain rs where rs: "balanceHistory (recordBalances ds u) = balanceHistory u @ rs"
      "map totalBalance rs = map callTotal ds" "map profitLoss rs = map (\<lambda>c. callTotal c - b) ds"
    and b': "initialBalance (config (recordBalances ds u)) = Some b"
    using recordBalances_baseline [OF b] by blast
  show "initialBalance (config (recordBalances ds u)) = Some b"
    using b' .
  show "map totalBalance (drop (length (balanceHistory u)) (balanceHistory (recordBalances ds u)))
            = map callTotal ds"
    using rs by simp
  show "map profitLoss (drop (length (balanceHistory u)) (balanceHistory (recordBalances ds u)))
            = map (\<lambda>c'. callTotal c' - b) ds"
    using rs by simp
qed

text \<open>
  Claim C5, amended, at scenario 3: a fresh tracker that records totals 250 and 275 has
  profits 0 and 25 and baseline 250; the tracker configured with baseline 250 that records
  275 has profit 25.
\<close>

theorem C5_profit_baseline_witness:
  "map profitLoss (balanceHistory
      (recordBalances [gbpCall 1 250, gbpCall 2 275] (freshTracker Progressive))) = [0, 25]
   \<and> initialBalance (config
      (recordBalances [gbpCall 1 250, gbpCall 2 275] (freshTracker Progressive))) = Some 250
   \<and> map profitLoss (balanceHistory (recordBalances [gbpCall 1 275] configuredTracker)) = [25]"
  using C5_profit_baseline [of "freshTracker Progressive" "gbpCall 1 250" "[gbpCall 2 275]"
      configuredTracker 250 "[gbpCall 1 275]"]
  by (simp add: freshTracker_def configuredTracker_def gbpCall_def callTotal_def truthy_def
      orElse_def)

subsection \<open>Milestones\<close>

lemma events_progressiveStep:
  "milestoneEvents M (progressiveStep now p m t)
     = (if m = M \<and> M \<le> p \<and> milestoneEvents M t = 0 then 1 else milestoneEvents M t)"
  by (simp add: progressiveStep_def events_recordMilestone reached_iff_events)

lemma events_fold_progressiveStep:
  "milestoneEvents M (fold (progressiveStep now p) ms t)
     = (if M \<in> set ms \<and> M \<le> p \<and> milestoneEvents M t = 0 then 1 else milestoneEvents M t)"
proof (induction ms arbitrary: t)
  case Nil
  then show ?case by simp
next
  case (Cons m ms)
  show ?case
    by (simp add: Cons.IH events_progressiveStep)
qed

lemma events_check_progressive:
  assumes "alertsEnabled (alerts (config t))" "milestoneAlert (alerts (config t))"
    and "milestoneMode (config t) = Progressive"
  shows "milestoneEvents M (checkProfitThreshold now p t)
     = (if M \<in> set (profitMilestones (config t)) \<and> M \<le> p \<and> milestoneEvents M t = 0
        then 1 else milestoneEvents M t)"
  using assms by (simp add: checkProfitThreshold_def events_fold_progressiveStep)

lemma events_checkProfits_progressive:
  assumes "alertsEnabled (alerts (config t))" "milestoneAlert (alerts (config t))"
    and "milestoneMode (config t) = Progressive"
    and "M \<in> set (profitMilestones (config t))"
  shows "milestoneEvents M (checkProfits ps t)
     = (if (\<exists>p \<in> snd ` set ps. M \<le> p) \<and> milestoneEvents M t = 0 then 1 else milestoneEvents M t)"
  using assms
proof (induction ps arbitrary: t)
  case Nil
  then show ?case by (simp add: checkProfits_def)
next
  case (Cons a ps)
  obtain now p where a: "a = (now, p)"
    by (cases a)
  let ?t = "checkProfitThreshold now p t"
  have step: "checkProfits (a # ps) t = checkProfits ps ?t"
    by (simp add: checkProfits_def a)
  have ev: "milestoneEvents M ?t = (if M \<le> p \<and> milestoneEvents M t = 0 then 1 else milestoneEvents M t)"
    using Cons.prems by (simp add: events_check_progressive)
  have "milestoneEvents M (checkProfits ps ?t)
     = (if (\<exists>p \<in> snd ` set ps. M \<le> p) \<and> milestoneEvents M ?t = 0 then 1 else milestoneEvents M ?t)"
    using Cons.prems by (intro Cons.IH) simp_all
  then show ?case
    unfolding step using ev a by auto
qed

lemma floor_bracket:
  fixes p inc :: rat
  assumes "0 < inc"
  shows "of_int \<lfloor>p / inc\<rfloor> * inc = of_int k * inc \<longleftrightarrow> of_int k * inc \<le> p \<and> p < of_int k * inc + inc"
proof -
  have "of_int \<lfloor>p / inc\<rfloor> * inc = of_int k * inc \<longleftrightarrow> \<lfloor>p / inc\<rfloor> = k"
    using assms by simp
  also have "\<dots> \<longleftrightarrow> of_int k \<le> p / inc \<and> p / inc < of_int k + 1"
    by (rule floor_eq_iff)
  also have "\<dots> \<longleftrightarrow> of_int k * inc \<le> p \<and> p < of_int k * inc + inc"
    using assms by (simp add: pos_le_divide_eq pos_divide_less_eq algebra_simps)
  finally show ?thesis .
qed

lemma events_check_fixed:
  assumes "alertsEnabled (alerts (config t))" "milestoneAlert (alerts (config t))"
    and "milestoneMode (config t) = Fixed"
    and "0 < fixedMilestoneIncrement (config t)" "1 \<le> k"
    and "M = of_int k * fixedMilestoneIncrement (config t)"
  shows "milestoneEvents M (checkProfitThreshold now p t)
     = (if M \<le> p \<and> p < M + fixedMilestoneIncrement (config t) \<and> milestoneEvents M t = 0
        then 1 else milestoneEvents M t)"
proof -
  let ?inc = "fixedMilestoneIncrement (config t)"
  have Mpos: "0 < M"
    using assms by simp
  have br: "of_int \<lfloor>p / ?inc\<rfloor> * ?inc = M \<longleftrightarrow> M \<le> p \<and> p < M + ?inc"
    using floor_bracket [OF assms(4), of p k] assms(6) by simp
  show ?thesis
  proof (cases "of_int \<lfloor>p / ?inc\<rfloor> * ?inc = M")
    case True
    then have "0 < p"
      using br Mpos by simp
    then show ?thesis
      using assms(1-3) True br Mpos
      by (simp add: checkProfitThreshold_def Let_def events_recordMilestone reached_iff_events)
  next
    case False
    then have nb: "\<not> (M \<le> p \<and> p < M + ?inc)"
      using br by simp
    show ?thesis
      using assms(1-3) False nb
      by (auto simp: checkProfitThreshold_def Let_def events_recordMilestone)
  qed
qed

lemma events_checkProfits_fixed:
  assumes "alertsEnabled (alerts (config t))" "milestoneAlert (alerts (config t))"
    and "milestoneMode (config t) = Fixed"
    and "0 < fixedMilestoneIncrement (config t)" "1 \<le> k"
    and "M = of_int k * fixedMilestoneIncrement (config t)"
  shows "milestoneEvents M (checkProfits ps t)
     = (if (\<exists>p \<in> snd ` set ps. M \<le> p \<and> p < M + fixedMilestoneIncrement (config t))
            \<and> milestoneEvents M t = 0 then 1 else milestoneEvents M t)"
  using assms
proof (induction ps arbitrary: t)
  case Nil
  then show ?case by (simp add: checkProfits_def)
next
  case (Cons a ps)
  obtain now p where a: "a = (now, p)"
    by (cases a)
  let ?t = "checkProfitThreshold now p t"
  let ?inc = "fixedMilestoneIncrement (config t)"
  have step: "checkProfits (a # ps) t = checkProfits ps ?t"
    by (simp add: checkProfits_def a)
  have ev: "milestoneEvents M ?t
      = (if M \<le> p \<and> p < M + ?inc \<and> milestoneEvents M t = 0 then 1 else milestoneEvents M t)"
    using Cons.prems by (intro events_check_fixed) auto
  have "milestoneEvents M (checkProfits ps ?t)
     = (if (\<exists>p \<in> snd ` set ps. M \<le> p \<and> p < M + fixedMilestoneIncrement (config ?t))
           \<and> milestoneEvents M ?t = 0 then 1 else milestoneEvents M ?t)"
    using Cons.prems by (intro Cons.IH) simp_all
  then show ?case
    unfolding step using ev a by auto
qed

lemma wasAboveThreshold_last:
  "wasAboveThreshold s t \<longleftrightarrow>
     profitHistory t \<noteq> []
     \<and> (case last (profitHistory t) of Trade tr \<Rightarrow> s \<le> runningProfit tr | Milestone _ \<Rightarrow> False)"
  by (cases "profitHistory t") (simp_all add: wasAboveThreshold_def)

lemma wasAbove_recordMilestone [simp]: "\<not> wasAboveThreshold s (recordMilestone now m t)"
  by (simp add: wasAboveThreshold_last recordMilestone_def)

lemma check_static:
  assumes "alertsEnabled (alerts (config t))" "milestoneAlert (alerts (config t))"
    and "milestoneMode (config t) = Static"
    and "\<not> wasAboveThreshold (staticMilestoneAmount (config t)) t"
  shows "milestoneEvents (staticMilestoneAmount (config t)) (checkProfitThreshold now p t)
       = milestoneEvents (staticMilestoneAmount (config t)) t
           + (if staticMilestoneAmount (config t) \<le> p then 1 else 0)"
    and "\<not> wasAboveThreshold (staticMilestoneAmount (config t)) (checkProfitThreshold now p t)"
  using assms by (simp_all add: checkProfitThreshold_def Let_def events_recordMilestone)

lemma events_checkProfits_static:
  assumes "alertsEnabled (alerts (config t))" "milestoneAlert (alerts (config t))"
    and "milestoneMode (config t) = Static"
    and "\<not> wasAboveThreshold (staticMilestoneAmount (config t)) t"
  shows "milestoneEvents (staticMilestoneAmount (config t)) (checkProfits ps t)
       = milestoneEvents (staticMilestoneAmount (config t)) t
           + length (filter (\<lambda>a. staticMilestoneAmount (config t) \<le> snd a) ps)"
  using assms
proof (induction ps arbitrary: t)
  case Nil
  then show ?case by (simp add: checkProfits_def)
next
  case (Cons a ps)
  obtain now p where a: "a = (now, p)"
    by (cases a)
  let ?t = "checkProfitThreshold now p t"
  have step: "checkProfits (a # ps) t = checkProfits ps ?t"
    by (simp add: checkProfits_def a)
  have "milestoneEvents (staticMilestoneAmount (config ?t)) (checkProfits ps ?t)
       = milestoneEvents (staticMilestoneAmount (config ?t)) ?t
           + length (filter (\<lambda>a. staticMilestoneAmount (config ?t) \<le> snd a) ps)"
    using Cons.prems check_static(2) [of t now p] by (intro Cons.IH) simp_all
  then show ?case
    unfolding step using check_static(1) [of t now p] Cons.prems a by simp
qed

text \<open>
  Claim C6, as stated, in fixed mode with increment 10: the increasing profit sequence
  5, 25 crosses the milestone value 10 once, and no milestone event for 10 is recorded
  (the one event recorded is for 20).
\<close>

theorem C6_fixed_mode_skips_bracket:
  "\<not> (milestoneEvents 10 (checkProfits [(1, 5), (2, 25)] (freshTracker Fixed)) = 1)"
  by code_simp

text \<open>
  Claim C6, amended, with milestone alerts enabled throughout.
  Progressive mode: a profit sequence that reaches a listed milestone \<open>M\<close> with no event
  yet records exactly one event for \<open>M\<close>.
  Fixed mode with increment \<open>d > 0\<close>: for a multiple \<open>M = k * d\<close>, \<open>k \<ge> 1\<close>, with no event yet,
  exactly one event for \<open>M\<close> is recorded when some checked profit lies in \<open>[M, M + d)\<close>, and
  none when no checked profit does.
  Static mode, when the last record of the profit history is not a trade at or above the
  static value: a profit sequence in which no two successive checks are both at or above
  the static value records one event for each check at or above it.
\<close>

theorem C6_milestone_counts:
  "(alertsEnabled (alerts (config t)) \<and> milestoneAlert (alerts (config t))
      \<and> milestoneMode (config t) = Progressive
      \<and> M \<in> set (profitMilestones (config t)) \<and> milestoneEvents M t = 0
      \<and> (\<exists>p \<in> snd ` set ps. M \<le> p)
      \<longrightarrow> milestoneEvents M (checkProfits ps t) = 1)
   \<and> (alertsEnabled (alerts (config u)) \<and> milestoneAlert (alerts (config u))
      \<and> milestoneMode (config u) = Fixed
      \<and> 0 < fixedMilestoneIncrement (config u) \<and> 1 \<le> k
      \<and> milestoneEvents (of_int k * fixedMilestoneIncrement (config u)) u = 0
      \<longrightarrow> milestoneEvents (of_int k * fixedMilestoneIncrement (config u)) (checkProfits qs u)
            = (if \<exists>p \<in> snd ` set qs. of_int k * fixedMilestoneIncrement (config u) \<le> p
                    \<and> p < of_int k * fixedMilestoneIncrement (config u)
                          + fixedMilestoneIncrement (config u)
               then 1 else 0))
   \<and> (alertsEnabled (alerts (config v)) \<and> milestoneAlert (alerts (config v))
      \<and> milestoneMode (config v) = Static
      \<and> \<not> wasAboveThreshold (staticMilestoneAmount (config v)) v
      \<and> (\<forall>i. Suc i < length rs \<longrightarrow>
            \<not> (staticMilestoneAmount (config v) \<le> snd (rs ! i)
               \<and> staticMilestoneAmount (config v) \<le> snd (rs ! Suc i)))
      \<longrightarrow> milestoneEvents (staticMilestoneAmount (config v)) (checkProfits rs v)
            = milestoneEvents (staticMilestoneAmount (config v)) v
              + length (filter (\<lambda>a. staticMilestoneAmount (config v) \<le> snd a) rs))"
proof (intro conjI impI)
  assume a: "alertsEnabled (alerts (config t)) \<and> milestoneAlert (alerts (config t))
      \<and> milestoneMode (config t) = Progressive
      \<and> M \<in> set (profitMilestones (config t)) \<and> milestoneEvents M t = 0
      \<and> (\<exists>p \<in> snd ` set ps. M \<le> p)"
  then have "milestoneEvents M (checkProfits ps t)
     = (if (\<exists>p \<in> snd ` set ps. M \<le> p) \<and> milestoneEvents M t = 0 then 1 else milestoneEvents M t)"
    by (intro events_checkProfits_progressive) simp_all
  then show "milestoneEvents M (checkProfits ps t) = 1"
    using a by simp
next
  let ?M = "of_int k * fixedMilestoneIncrement (config u)"
  assume a: "alertsEnabled (alerts (config u)) \<and> milestoneAlert (alerts (config u))
      \<and> milestoneMode (config u) = Fixed
      \<and> 0 < fixedMilestoneIncrement (config u) \<and> 1 \<le> k
      \<and> milestoneEvents ?M u = 0"
  then have "milestoneEvents ?M (checkProfits qs u)
     = (if (\<exists>p \<in> snd ` set qs. ?M \<le> p \<and> p < ?M + fixedMilestoneIncrement (config u))
            \<and> milestoneEvents ?M u = 0 then 1 else milestoneEvents ?M u)"
    by (intro events_checkProfits_fixed [where k = k]) simp_all
  then show "milestoneEvents ?M (checkProfits qs u)
            = (if \<exists>p \<in> snd ` set qs. ?M \<le> p \<and> p < ?M + fixedMilestoneIncrement (config u)
               then 1 else 0)"
    using a by simp
next
  assume a: "alertsEnabled (alerts (config v)) \<and> milestoneAlert (alerts (config v))
      \<and> milestoneMode (config v) = Static
      \<and> \<not> wasAboveThreshold (staticMilestoneAmount (config v)) v
      \<and> (\<forall>i. Suc i < length rs \<longrightarrow>
            \<not> (staticMilestoneAmount (config v) \<le> snd (rs ! i)
               \<and> staticMilestoneAmount (config v) \<le> snd (rs ! Suc i)))"
  then show "milestoneEvents (staticMilestoneAmount (config v)) (checkProfits rs v)
            = milestoneEvents (staticMilestoneAmount (config v)) v
              + length (filter (\<lambda>a. staticMilestoneAmount (config v) \<le> snd a) rs)"
    by (intro events_checkProfits_static) simp_all
qed

text \<open>
  Claim C6, amended, at three trackers with the default configuration: the progressive
  sequence 5, 12, 30 records one event for 10; the fixed-mode sequence 5, 25 records one
  event for 20; the static sequence 5, 12, 3, 11 of scenario 4 records two events for 10.
\<close>

theorem C6_milestone_counts_witness:
  "milestoneEvents 10 (checkProfits [(1, 5), (2, 12), (3, 30)] (freshTracker Progressive)) = 1
   \<and> milestoneEvents 20 (checkProfits [(1, 5), (2, 25)] (freshTracker Fixed)) = 1
   \<and> milestoneEvents 10 (checkProfits [(1, 5), (2, 12), (3, 3), (4, 11)] (freshTracker Static)) = 2"
  using C6_milestone_counts [of "freshTracker Progressive" 10 "[(1, 5), (2, 12), (3, 30)]"
      "freshTracker Fixed" 2 "[(1, 5), (2, 25)]"
      "freshTracker Static" "[(1, 5), (2, 12), (3, 3), (4, 11)]"]
  by (simp add: freshTracker_def defaultAlerts_def milestoneEvents_def wasAboveThreshold_def
      less_Suc_eq)

section \<open>The timing gate\<close>








section \<open>The buyer\<close>

text \<open>
  Claim C8: when no sell has been recorded (\<^verbatim>\<open>lastSellPrice\<close> is null), for every price
  observation and every balances object, \<^verbatim>\<open>checkBuyingConditions\<close> returns, and its
  \<^verbatim>\<open>shouldBuy\<close> is false.
\<close>

theorem C8_no_buy_before_first_sell:
  assumes "lastSellPrice b = None"
  shows "map_sum id (\<lambda>(r, b'). shouldBuy r)
           (checkBuyingConditions toDateString now (Inr bal) currentPrice b) = Inr False"
  using assms by (simp add: checkBuyingConditions_def Let_def)

text \<open>
  Claim C8 at a buyer that has never sold: the price is below the threshold, the balance
  suffices, the limits and the timing allow a buy, and \<^verbatim>\<open>shouldBuy\<close> is false.
\<close>

theorem C8_no_buy_witness:
  "lastSellPrice neverSoldBuyer = None
   \<and> map_sum id (\<lambda>(r, b'). checked r)
       (checkBuyingConditions (\<lambda>ts. ''Tue Nov 03 2026'') 10000000 (Inr fundedBalances) lowPrice neverSoldBuyer)
     = Inr \<lparr> cPriceThreshold = True, cPercentageDrop = False, cSufficientBalance = True,
            cWithinDailyLimit = True, cTimingOk = True, cBelowMaxHolding = True,
            cSupportLevel = False, cPostSellThreshold = False \<rparr>
   \<and> map_sum id (\<lambda>(r, b'). shouldBuy r)
       (checkBuyingConditions (\<lambda>ts. ''Tue Nov 03 2026'') 10000000 (Inr fundedBalances) lowPrice neverSoldBuyer)
     = Inr False"
proof -
  have n: "lastSellPrice neverSoldBuyer = None"
    by (simp add: neverSoldBuyer_def)
  have c: "map_sum id (\<lambda>(r, b'). checked r)
       (checkBuyingConditions (\<lambda>ts. ''Tue Nov 03 2026'') 10000000 (Inr fundedBalances) lowPrice neverSoldBuyer)
     = Inr \<lparr> cPriceThreshold = True, cPercentageDrop = False, cSufficientBalance = True,
            cWithinDailyLimit = True, cTimingOk = True, cBelowMaxHolding = True,
            cSupportLevel = False, cPostSellThreshold = False \<rparr>"
    by (simp add: checkBuyingConditions_def neverSoldBuyer_def fundedBalances_def lowPrice_def
        getTodaysBuyingAmount_def getTodaysBuyingTradeCount_def orElse_def Let_def)
  show ?thesis
    using n c C8_no_buy_before_first_sell [OF n] by simp
qed

end
